theory Spec2Isabelle
  imports Main "HOL-Library.Sublist"
begin

section \<open>Python strings\<close>

text \<open>
  A Python \<open>str\<close> is a sequence of code points. The model takes the code points
  0..255 (the Latin-1 block), one \<^typ>\<open>char\<close> each, so \<^const>\<open>length\<close> is Python's
  \<open>len\<close>. The character classes below are Python's on that block.
\<close>

definition isspace :: "char \<Rightarrow> bool" where
  \<comment> \<open>\<open>str.isspace\<close>, which is also the class \<open>\s\<close> of \<open>re\<close> on \<open>str\<close> patterns.\<close>
  "isspace c = (c \<in> set [CHR 0x09, CHR 0x0A, CHR 0x0B, CHR 0x0C, CHR 0x0D,
                           CHR 0x1C, CHR 0x1D, CHR 0x1E, CHR 0x1F, CHR '' '',
                           CHR 0x85, CHR 0xA0])"

definition isdigit :: "char \<Rightarrow> bool" where
  \<comment> \<open>The class \<open>\d\<close>: the decimal digits.\<close>
  "isdigit c = (c \<in> set ''0123456789'')"

definition lower_char :: "char \<Rightarrow> char" where
  \<comment> \<open>\<open>str.lower\<close> on one code point: A-Z, and the Latin-1 capitals but the
      multiplication sign, move up by 32.\<close>
  "lower_char c =
     (let n = (of_char c :: nat)
      in if (65 \<le> n \<and> n \<le> 90) \<or> (192 \<le> n \<and> n \<le> 222 \<and> n \<noteq> 215)
         then char_of (n + 32) else c)"

definition lower :: "string \<Rightarrow> string" where
  "lower s = map lower_char s"

definition lstrip :: "string \<Rightarrow> string" where
  "lstrip s = dropWhile isspace s"

definition rstrip :: "string \<Rightarrow> string" where
  "rstrip s = rev (dropWhile isspace (rev s))"

definition strip :: "string \<Rightarrow> string" where
  \<comment> \<open>\<open>s.strip()\<close>\<close>
  "strip s = rstrip (lstrip s)"

fun py_in :: "string \<Rightarrow> string \<Rightarrow> bool" where
  \<comment> \<open>\<open>t in s\<close> on strings: \<open>t\<close> occurs in \<open>s\<close> as a contiguous run.\<close>
  "py_in t [] = (t = [])"
| "py_in t (c # cs) = (if prefix t (c # cs) then True else py_in t cs)"

subsection \<open>The substitutions of \<open>normalize_text\<close>\<close>

text \<open>
  \<open>re.sub\<close> scans from the left, replaces the leftmost match, and goes on after it;
  it never looks again at what it has produced.
\<close>

function sub_ws :: "string \<Rightarrow> string \<Rightarrow> string" where
  \<comment> \<open>\<open>re.sub(r'\s+', rep, s)\<close>: \<open>\s+\<close> is greedy, it takes the whole run.\<close>
  "sub_ws rep [] = []"
| "sub_ws rep (c # cs) =
     (if isspace c then rep @ sub_ws rep (dropWhile isspace cs)
      else c # sub_ws rep cs)"
  by pat_completeness auto
termination
  by (relation "measure (\<lambda>(rep, s). length s)")
     (auto simp: le_imp_less_Suc length_dropWhile_le)

function sub_citation :: "string \<Rightarrow> string" where
  \<comment> \<open>\<open>re.sub(r'\[\d+\]', '', s)\<close>: an opening bracket, the whole run of digits
      (one at least), a closing bracket.\<close>
  "sub_citation [] = []"
| "sub_citation (c # cs) =
     (if c = CHR ''['' \<and> takeWhile isdigit cs \<noteq> []
         \<and> take 1 (dropWhile isdigit cs) = '']''
      then sub_citation (drop 1 (dropWhile isdigit cs))
      else c # sub_citation cs)"
  by pat_completeness auto
termination
  by (relation "measure length")
     (auto simp: less_Suc_eq_le intro!: order_trans [OF diff_le_self length_dropWhile_le])

definition not_rparen :: "char \<Rightarrow> bool" where
  \<comment> \<open>The class \<open>[^)]\<close>.\<close>
  "not_rparen c = (c \<noteq> CHR '')'')"

function sub_edit :: "string \<Rightarrow> string" where
  \<comment> \<open>\<open>re.sub(r'\([^)]*edit[^)]*\)', '', s, flags=re.IGNORECASE)\<close>: an opening
      parenthesis, then up to the first closing parenthesis a run that holds
      \<open>edit\<close> in any case.\<close>
  "sub_edit [] = []"
| "sub_edit (c # cs) =
     (if c = CHR ''('' \<and> take 1 (dropWhile not_rparen cs) = '')''
         \<and> py_in ''edit'' (lower (takeWhile not_rparen cs))
      then sub_edit (drop 1 (dropWhile not_rparen cs))
      else c # sub_edit cs)"
  by pat_completeness auto
termination
  by (relation "measure length")
     (auto simp: less_Suc_eq_le intro!: order_trans [OF diff_le_self length_dropWhile_le])

definition normalize_text :: "string \<Rightarrow> string" where
  \<comment> \<open>\<open>utils/helpers.py\<close>, \<open>normalize_text\<close>\<close>
  "normalize_text text =
     (if text = [] then []
      else strip (sub_edit (sub_citation (sub_ws '' '' (strip text)))))"


section \<open>Records of the pipeline\<close>

text \<open>
  An entry is a Python dict. The model keeps the keys the pipeline reads or writes;
  a field is \<open>None\<close> when the key is absent, and holds a Python value otherwise
  (the scraper stores Python's \<open>None\<close> under \<open>wiki_link\<close> and
  \<open>primary_image_url\<close> when it has none).
\<close>

datatype pyval = PyNone | PyStr string

datatype py_error = KeyError string | TypeError | AttributeError

datatype message =
    FileAlreadyExists
  | NonImageContentType string
  | ImageTooLarge string
  | ImageTooLargeDuringDownload
  | DownloadedFileIsEmpty
  | DownloadedSuccessfully nat
  | DownloadTimeout
  | RequestError
  | FileSystemError
  | UnexpectedError
  | NoImageURLAvailable

record entry =
  animal :: "pyval option"
  adjective :: "pyval option"
  wiki_link :: "pyval option"
  primary_image_url :: "pyval option"
  local_image_path :: "pyval option"
  download_status :: "message option"
  download_success :: "bool option"

fun truthy :: "pyval option \<Rightarrow> bool" where
  \<comment> \<open>The truth value of \<open>entry.get(key)\<close>.\<close>
  "truthy None = False"
| "truthy (Some PyNone) = False"
| "truthy (Some (PyStr s)) = (s \<noteq> [])"

fun str_of :: "pyval option \<Rightarrow> string" where
  \<comment> \<open>The string under a key that \<^const>\<open>truthy\<close> has accepted.\<close>
  "str_of (Some (PyStr s)) = s"
| "str_of _ = []"

section \<open>Validator\<close>

definition invalid_terms :: "string list" where
  "invalid_terms =
     [''see also'', ''references'', ''external links'', ''notes'',
      ''male'', ''female'', ''young'', ''group'', ''adjective'']"

definition is_valid_animal_name :: "string \<Rightarrow> bool" where
  \<comment> \<open>\<open>utils/helpers.py\<close>, \<open>is_valid_animal_name\<close>\<close>
  "is_valid_animal_name name =
     (if name = [] \<or> length name < 2 then False
      else \<not> list_ex (\<lambda>t. py_in t (lower name)) invalid_terms)"

definition null_adjectives :: "string list" where
  \<comment> \<open>The sentinels of the validator. The source lists a fourth one, three code
      points of which two lie beyond the modelled block; no modelled string equals it.\<close>
  "null_adjectives = [''n/a'', ''none'', ''-'']"

definition validate_animal_entry :: "entry \<Rightarrow> bool" where
  \<comment> \<open>\<open>processor/data_processor.py\<close>, \<open>validate_animal_entry\<close>\<close>
  "validate_animal_entry e =
     (if \<not> truthy (animal e) \<or> \<not> truthy (adjective e) then False
      else
        let animal_name = strip (str_of (animal e));
            adj = strip (str_of (adjective e))
        in if \<not> is_valid_animal_name animal_name then False
           else if length adj < 2 \<or> lower adj \<in> set null_adjectives then False
           else if lower animal_name = lower adj then False
           else True)"

fun validate_entries :: "entry list \<Rightarrow> entry list \<times> nat" where
  \<comment> \<open>Step 1 of \<open>process_animal_data\<close>: the valid entries, in order, and their count.\<close>
  "validate_entries [] = ([], 0)"
| "validate_entries (e # es) =
     (case validate_entries es of (vs, n) \<Rightarrow>
        if validate_animal_entry e then (e # vs, Suc n) else (vs, n))"

section \<open>Deduplicator\<close>





section \<open>Multi-value splitter\<close>

function sub_br :: "string \<Rightarrow> string" where
  \<comment> \<open>\<open>re.sub(r'<br[^>]*>', ',', html, flags=re.IGNORECASE)\<close>\<close>
  "sub_br [] = []"
| "sub_br (c # cs) =
     (if c = CHR ''<'' \<and> lower (take 2 cs) = ''br''
         \<and> take 1 (dropWhile (\<lambda>x. x \<noteq> CHR ''>'') (drop 2 cs)) = ''>''
      then CHR '','' # sub_br (drop 1 (dropWhile (\<lambda>x. x \<noteq> CHR ''>'') (drop 2 cs)))
      else c # sub_br cs)"
  by pat_completeness auto
termination
  by (relation "measure length")
     (auto simp: less_Suc_eq_le
           intro!: order_trans [OF diff_le_self] order_trans [OF length_dropWhile_le])

fun split_from :: "string \<Rightarrow> string \<Rightarrow> string \<Rightarrow> string list" where
  \<comment> \<open>\<open>s.split(sep)\<close> from the left, \<open>cur\<close> the piece being read. Python raises on an
      empty separator; every separator of the cascade has a first character.\<close>
  "split_from sep cur [] = [cur]"
| "split_from sep cur (c # cs) =
     (if sep \<noteq> [] \<and> prefix sep (c # cs)
      then cur # split_from sep [] (drop (length sep) (c # cs))
      else split_from sep (cur @ [c]) cs)"


fun split_each :: "string \<Rightarrow> string list \<Rightarrow> string list" where
  \<comment> \<open>The inner loop: every fragment that holds the separator is split on it.\<close>
  "split_each separator [] = []"
| "split_each separator (adj # adjectives) =
     (if py_in separator adj then split_from separator [] adj else [adj])
       @ split_each separator adjectives"

fun apply_separators :: "string list \<Rightarrow> string list \<Rightarrow> string list" where
  \<comment> \<open>The outer loop: one pass over the fragments for each separator, in order.\<close>
  "apply_separators [] adjectives = adjectives"
| "apply_separators (separator # rest) adjectives =
     apply_separators rest (split_each separator adjectives)"

definition separators :: "string list" where
  "separators = ['','', '';'', '' or '', '' and '', ''/'', '' & '']"

definition null_values :: "string list" where
  \<comment> \<open>The sentinels of the splitter. The source lists the em-dash as well, a code
      point beyond the modelled block; no modelled string equals it.\<close>
  "null_values = [''n/a'', ''none'', ''-'']"

fun clean_adjectives :: "string list \<Rightarrow> string list" where
  "clean_adjectives [] = []"
| "clean_adjectives (adj # adjectives) =
     (let cleaned = normalize_text adj
      in if cleaned \<noteq> [] \<and> length cleaned > 1 \<and> lower cleaned \<notin> set null_values
         then cleaned # clean_adjectives adjectives
         else clean_adjectives adjectives)"

definition split_multiple_adjectives ::
  "(string \<Rightarrow> string) \<Rightarrow> string \<Rightarrow> string \<Rightarrow> string list" where
  \<comment> \<open>\<open>scraper/wikipedia_animal_scraper.py\<close>, \<open>_split_multiple_adjectives\<close>. The
      parameter \<open>get_text\<close> is the HTML parser of the library:
      \<open>BeautifulSoup(markup, 'html.parser').get_text(strip=True)\<close>.\<close>
  "split_multiple_adjectives get_text adjective_html adjective_text =
     (let html_with_br_replaced = sub_br adjective_html;
          text_with_br_as_comma = normalize_text (get_text html_with_br_replaced);
          final_text = (if text_with_br_as_comma \<noteq> adjective_text
                        then text_with_br_as_comma else adjective_text);
          adjectives = apply_separators separators [final_text];
          cleaned_adjectives = clean_adjectives adjectives
      in if cleaned_adjectives \<noteq> [] then cleaned_adjectives else [final_text])"

definition plain_text :: "string \<Rightarrow> string" where
  \<comment> \<open>What the parser returns for markup that holds no tag, entity or comment: its
      one text node, stripped.\<close>
  "plain_text markup = strip markup"

section \<open>Table classifier\<close>

text \<open>
  The document is the list of its tables in document order, as
  \<open>soup.find_all('table')\<close> walks them. A table carries its CSS classes and its rows;
  a row is the list of its \<open>th\<close> and \<open>td\<close> cells, a cell its \<open>get_text(strip=True)\<close>.
  \<open>table.find('tr')\<close> is the first row, or \<open>None\<close> when there is no row.
\<close>

record table =
  css_classes :: "string list"
  rows :: "string list list"

definition collateral_indicators :: "string list" where
  "collateral_indicators =
     [''collateral adjective'', ''adjective'', ''collateral'',
      ''adjectival'', ''relating adjective'']"

definition has_indicator :: "string \<Rightarrow> bool" where
  \<comment> \<open>\<open>any(indicator in cell_text for indicator in [...])\<close>\<close>
  "has_indicator cell_text = list_ex (\<lambda>indicator. py_in indicator cell_text) collateral_indicators"

fun identify_loop :: "table list \<Rightarrow> table list" where
  "identify_loop [] = []"
| "identify_loop (t # ts) =
     (case rows t of
        [] \<Rightarrow> identify_loop ts
      | header_row # _ \<Rightarrow>
          let header_texts = map lower header_row
          in if list_ex has_indicator header_texts
             then t # identify_loop ts
             else identify_loop ts)"

definition identify_collateral_adjective_tables :: "table list \<Rightarrow> table list" where
  \<comment> \<open>\<open>_identify_collateral_adjective_tables\<close>: only the tables of class
      \<open>wikitable\<close> are scanned.\<close>
  "identify_collateral_adjective_tables soup =
     identify_loop (filter (\<lambda>t. ''wikitable'' \<in> set (css_classes t)) soup)"

fun find_index_from :: "int \<Rightarrow> string list \<Rightarrow> int" where
  "find_index_from idx [] = - 1"
| "find_index_from idx (cell # cells) =
     (if has_indicator (lower cell) then idx else find_index_from (idx + 1) cells)"

definition find_collateral_adjective_column_index :: "string list \<Rightarrow> int" where
  \<comment> \<open>\<open>_find_collateral_adjective_column_index\<close>\<close>
  "find_collateral_adjective_column_index header_row = find_index_from 0 header_row"

definition contains_ci :: "string \<Rightarrow> string \<Rightarrow> bool" where
  \<comment> \<open>The claims' words: \<open>s\<close> contains \<open>t\<close> somewhere within it, in any case.\<close>
  "contains_ci t s = (\<exists>pre mid post. s = pre @ mid @ post \<and> lower mid = t)"

section \<open>Metadata lookup\<close>

text \<open>
  A parsed JSON value. A number is kept as an integer: of a number the lookup reads
  whether it is zero, no more.
\<close>

datatype json =
    JNull | JBool bool | JNum int | JStr string
  | JArr "json list" | JObj "(string \<times> json) list"

datatype exn = Timeout | RequestException | OSError | ValueError | OtherException

text \<open>
  The classes of exception the handlers tell apart. \<open>Timeout\<close>, an HTTP error
  status and the JSON error of \<open>requests\<close> are request exceptions; \<open>OtherException\<close>
  is any other \<open>Exception\<close> (\<open>TypeError\<close>, \<open>AttributeError\<close>).
\<close>

record api_response =
  api_status :: nat
  api_json :: "exn + json"

type_synonym api_cache = "string \<rightharpoonup> json option"

fun json_truthy :: "json \<Rightarrow> bool" where
  "json_truthy JNull = False"
| "json_truthy (JBool b) = b"
| "json_truthy (JNum n) = (n \<noteq> 0)"
| "json_truthy (JStr s) = (s \<noteq> [])"
| "json_truthy (JArr xs) = (xs \<noteq> [])"
| "json_truthy (JObj kvs) = (kvs \<noteq> [])"

fun dict_get :: "json \<Rightarrow> string \<Rightarrow> exn + json" where
  \<comment> \<open>\<open>api_data.get(key)\<close>: only a dict has \<open>get\<close>; an absent key gives \<open>None\<close>.\<close>
  "dict_get (JObj kvs) k = Inr (case map_of kvs k of None \<Rightarrow> JNull | Some v \<Rightarrow> v)"
| "dict_get _ k = Inl OtherException"

fun json_contains :: "string \<Rightarrow> json \<Rightarrow> exn + bool" where
  \<comment> \<open>\<open>key in thumbnail\<close>\<close>
  "json_contains k (JObj kvs) = Inr (map_of kvs k \<noteq> None)"
| "json_contains k (JArr xs) = Inr (JStr k \<in> set xs)"
| "json_contains k (JStr s) = Inr (py_in k s)"
| "json_contains k _ = Inl OtherException"

fun json_item :: "json \<Rightarrow> string \<Rightarrow> exn + json" where
  \<comment> \<open>\<open>thumbnail[key]\<close>, once \<open>key in thumbnail\<close> holds.\<close>
  "json_item (JObj kvs) k =
     (case map_of kvs k of None \<Rightarrow> Inl OtherException | Some v \<Rightarrow> Inr v)"
| "json_item _ k = Inl OtherException"

definition py_of_json :: "json \<Rightarrow> json option" where
  \<comment> \<open>A JSON \<open>null\<close> is Python's \<open>None\<close>.\<close>
  "py_of_json j = (if j = JNull then None else Some j)"

definition api_try_body :: "(string \<Rightarrow> exn + api_response) \<Rightarrow> string \<Rightarrow> exn + json option" where
  \<comment> \<open>The \<open>try\<close> block of \<open>_get_animal_image_from_api\<close>. \<open>api_get\<close> is the
      request for the page summary of a name. On status 304 the source only logs.\<close>
  "api_try_body api_get animal_wiki_name =
     (case api_get animal_wiki_name of
        Inl e \<Rightarrow> Inl e
      | Inr response \<Rightarrow>
          if 400 \<le> api_status response \<and> api_status response < 600 then Inl RequestException
          else
            (case api_json response of
               Inl e \<Rightarrow> Inl e
             | Inr api_data \<Rightarrow>
                 (case dict_get api_data ''thumbnail'' of
                    Inl e \<Rightarrow> Inl e
                  | Inr thumbnail \<Rightarrow>
                      if \<not> json_truthy thumbnail then Inr None
                      else
                        (case json_contains ''source'' thumbnail of
                           Inl e \<Rightarrow> Inl e
                         | Inr False \<Rightarrow> Inr None
                         | Inr True \<Rightarrow>
                             (case json_item thumbnail ''source'' of
                                Inl e \<Rightarrow> Inl e
                              | Inr image_url \<Rightarrow> Inr (py_of_json image_url))))))"

definition get_animal_image_from_api ::
  "(string \<Rightarrow> exn + api_response) \<Rightarrow> api_cache \<Rightarrow> string
     \<Rightarrow> exn + (json option \<times> api_cache)" where
  \<comment> \<open>\<open>_get_animal_image_from_api\<close>: \<open>Inl\<close> would be an exception that leaves the
      function; the result comes with the cache after the call.\<close>
  "get_animal_image_from_api api_get cache animal_wiki_name =
     (if animal_wiki_name = [] then Inr (None, cache)
      else
        (case cache animal_wiki_name of
           Some cached \<Rightarrow> Inr (cached, cache)
         | None \<Rightarrow>
             (case api_try_body api_get animal_wiki_name of
                Inr image_url \<Rightarrow> Inr (image_url, cache(animal_wiki_name \<mapsto> image_url))
              | Inl RequestException \<Rightarrow> Inr (None, cache(animal_wiki_name \<mapsto> None))
              | Inl Timeout \<Rightarrow> Inr (None, cache(animal_wiki_name \<mapsto> None))
              | Inl ValueError \<Rightarrow> Inr (None, cache(animal_wiki_name \<mapsto> None))
              | Inl _ \<Rightarrow> Inr (None, cache(animal_wiki_name \<mapsto> None)))))"


section \<open>Fetch orchestrator\<close>

subsection \<open>Local file names\<close>

definition forbidden_chars :: "char list" where
  \<comment> \<open>The class \<open>[<>:"/\\|?*]\<close>.\<close>
  "forbidden_chars =
     [CHR ''<'', CHR ''>'', CHR '':'', CHR 0x22, CHR ''/'', CHR 0x5C, CHR ''|'', CHR ''?'',
      CHR ''*'']"

definition strip_underscores :: "string \<Rightarrow> string" where
  \<comment> \<open>\<open>s.strip('_')\<close>\<close>
  "strip_underscores s =
     rev (dropWhile (\<lambda>c. c = CHR ''_'') (rev (dropWhile (\<lambda>c. c = CHR ''_'') s)))"

definition sanitize_filename :: "string \<Rightarrow> string" where
  \<comment> \<open>\<open>utils/helpers.py\<close>, \<open>sanitize_filename\<close>\<close>
  "sanitize_filename filename =
     (let sanitized = map (\<lambda>c. if c \<in> set forbidden_chars then CHR ''_'' else c) filename;
          sanitized = sub_ws ''_'' (lower (strip sanitized));
          sanitized = take 50 (strip_underscores sanitized)
      in if sanitized \<noteq> [] then sanitized else ''unknown_animal'')"

definition SUPPORTED_IMAGE_EXTENSIONS :: "string list" where
  "SUPPORTED_IMAGE_EXTENSIONS = [''.jpg'', ''.jpeg'', ''.png'', ''.gif'', ''.webp'', ''.svg'']"

definition IMAGE_DOWNLOAD_DIR :: string where
  "IMAGE_DOWNLOAD_DIR = ''/tmp''"

definition MAX_IMAGE_SIZE :: nat where
  "MAX_IMAGE_SIZE = 15 * 1024 * 1024"

text \<open>
  What the downloader meets outside the program: \<open>url_suffix\<close> is
  \<open>Path(urlparse(url).path).suffix\<close> (\<open>urlparse\<close> raises on a malformed address),
  \<open>http_get\<close> the answer to the n-th request of the run, and \<open>open_raises\<close> the
  exception that opening a path for writing raises, if it raises one (an \<open>OSError\<close>
  from the disk, a \<open>ValueError\<close> for a path that holds a NUL).
\<close>

datatype event = Chunk nat | Raise exn

text \<open>
  The body as \<open>iter_content\<close> hands it over: a chunk, given by its length, or an
  exception raised while reading (or while writing the chunk before).
\<close>

record response =
  status_code :: nat
  content_type :: "string option"
  content_length :: "string option"
  body :: "event list"

record env =
  url_suffix :: "string \<Rightarrow> exn + string"
  http_get :: "nat \<Rightarrow> string \<Rightarrow> exn + response"
  open_raises :: "string \<Rightarrow> exn option"

definition get_file_extension_from_url :: "env \<Rightarrow> string \<Rightarrow> exn + string" where
  \<comment> \<open>\<open>utils/helpers.py\<close>, \<open>get_file_extension_from_url\<close>\<close>
  "get_file_extension_from_url ev url =
     (case url_suffix ev url of
        Inl e \<Rightarrow> Inl e
      | Inr sfx \<Rightarrow>
          let extension = lower sfx
          in if extension = [] \<or> extension \<notin> set SUPPORTED_IMAGE_EXTENSIONS
             then Inr ''.jpg'' else Inr extension)"

definition create_local_image_path :: "env \<Rightarrow> pyval \<Rightarrow> string \<Rightarrow> exn + string" where
  \<comment> \<open>\<open>utils/helpers.py\<close>, \<open>create_local_image_path\<close>. A name that is not a string
      makes \<open>re.sub\<close> raise a \<open>TypeError\<close>.\<close>
  "create_local_image_path ev animal_name image_url =
     (case animal_name of
        PyNone \<Rightarrow> Inl OtherException
      | PyStr name \<Rightarrow>
          (case get_file_extension_from_url ev image_url of
             Inl e \<Rightarrow> Inl e
           | Inr extension \<Rightarrow>
               Inr (IMAGE_DOWNLOAD_DIR @ ''/'' @ sanitize_filename name @ ''_image'' @ extension)))"

subsection \<open>One download\<close>

text \<open>
  The state the downloader works on: the files of the download directory (a file is
  its size in bytes, all the downloader reads of it), the statistics, and the requests
  sent so far.
\<close>

record dl_stats =
  attempted :: nat
  successful :: nat
  failed :: nat
  skipped :: nat

record world =
  files :: "string \<rightharpoonup> nat"
  stats :: dl_stats
  requests :: "string list"

type_synonym outcome = "bool \<times> message \<times> string option"

definition count_failed :: "world \<Rightarrow> world" where
  "count_failed w = w\<lparr>stats := (stats w)\<lparr>failed := failed (stats w) + 1\<rparr>\<rparr>"

definition unlink :: "string \<Rightarrow> world \<Rightarrow> world" where
  "unlink p w = w\<lparr>files := (files w)(p := None)\<rparr>"

definition write_chunk :: "string \<Rightarrow> nat \<Rightarrow> world \<Rightarrow> world" where
  \<comment> \<open>\<open>f.write(chunk)\<close> on the open file.\<close>
  "write_chunk p n w =
     w\<lparr>files := (files w)(p \<mapsto> (case files w p of None \<Rightarrow> n | Some sz \<Rightarrow> sz + n))\<rparr>"

fun parse_digits :: "nat \<Rightarrow> string \<Rightarrow> nat option" where
  \<comment> \<open>The digits after a first one; an underscore may stand between two digits.\<close>
  "parse_digits acc [] = Some acc"
| "parse_digits acc (c # cs) =
     (if isdigit c then parse_digits (acc * 10 + (of_char c - 48)) cs
      else if c = CHR ''_'' \<and> cs \<noteq> [] \<and> isdigit (hd cs) then parse_digits acc cs
      else None)"

definition parse_nat :: "string \<Rightarrow> nat option" where
  "parse_nat s =
     (case s of
        [] \<Rightarrow> None
      | c # cs \<Rightarrow> if isdigit c then parse_digits (of_char c - 48) cs else None)"

definition int_space :: "char \<Rightarrow> bool" where
  \<comment> \<open>The whitespace \<open>int\<close> accepts around a number: the ASCII whitespace, and the
      whitespace beyond ASCII (which \<open>int\<close> first turns into blanks). The separators
      0x1C to 0x1F, whitespace to \<open>str.strip\<close>, are none to \<open>int\<close>.\<close>
  "int_space c = (c \<in> set [CHR 0x09, CHR 0x0A, CHR 0x0B, CHR 0x0C, CHR 0x0D, CHR '' '',
                             CHR 0x85, CHR 0xA0])"

definition int_of_str :: "string \<Rightarrow> int option" where
  \<comment> \<open>\<open>int(s)\<close>; \<open>None\<close> is Python's \<open>ValueError\<close>.\<close>
  "int_of_str s =
     (case rev (dropWhile int_space (rev (dropWhile int_space s))) of
        [] \<Rightarrow> None
      | c # cs \<Rightarrow>
          if c = CHR ''-'' then map_option (\<lambda>n. - int n) (parse_nat cs)
          else if c = CHR ''+'' then map_option int (parse_nat cs)
          else map_option int (parse_nat (c # cs)))"

datatype stream_result = Raised exn | Returned outcome | Completed nat

fun stream_loop :: "string \<Rightarrow> nat \<Rightarrow> event list \<Rightarrow> world \<Rightarrow> stream_result \<times> world" where
  \<comment> \<open>The loop over \<open>response.iter_content\<close>, with \<open>total_size\<close> so far.\<close>
  "stream_loop p total_size [] w = (Completed total_size, w)"
| "stream_loop p total_size (Raise e # evs) w = (Raised e, w)"
| "stream_loop p total_size (Chunk n # evs) w =
     (if n = 0 then stream_loop p total_size evs w
      else
        let w = write_chunk p n w;
            total_size = total_size + n
        in if total_size > MAX_IMAGE_SIZE
           then (Returned (False, ImageTooLargeDuringDownload, None), count_failed (unlink p w))
           else stream_loop p total_size evs w)"

definition declared_too_large :: "response \<Rightarrow> exn + bool" where
  \<comment> \<open>\<open>content_length and int(content_length) > MAX_IMAGE_SIZE\<close>: an absent or empty
      header is not read; one that is no number makes \<open>int\<close> raise.\<close>
  "declared_too_large response =
     (case content_length response of
        None \<Rightarrow> Inr False
      | Some cl \<Rightarrow>
          if cl = [] then Inr False
          else (case int_of_str cl of
                  None \<Rightarrow> Inl ValueError
                | Some n \<Rightarrow> Inr (n > int MAX_IMAGE_SIZE)))"

definition save_body ::
  "env \<Rightarrow> world \<Rightarrow> string \<Rightarrow> response \<Rightarrow> (exn + outcome) \<times> world" where
  \<comment> \<open>The download proper: the file is opened (and so created, empty), the chunks are
      written, and the file is verified.\<close>
  "save_body ev w local_path response =
     (case open_raises ev local_path of
        Some e \<Rightarrow> (Inl e, w)
      | None \<Rightarrow>
        (case stream_loop local_path 0 (body response)
                (w\<lparr>files := (files w)(local_path \<mapsto> 0)\<rparr>) of
           (Raised e, w) \<Rightarrow> (Inl e, w)
         | (Returned out, w) \<Rightarrow> (Inr out, w)
         | (Completed total_size, w) \<Rightarrow>
             if files w local_path = None \<or> files w local_path = Some 0
             then (Inr (False, DownloadedFileIsEmpty, None),
                   count_failed (if files w local_path \<noteq> None then unlink local_path w else w))
             else
               (Inr (True, DownloadedSuccessfully total_size, Some local_path),
                w\<lparr>stats := (stats w)\<lparr>successful := successful (stats w) + 1\<rparr>\<rparr>)))"

definition accept_response ::
  "env \<Rightarrow> world \<Rightarrow> string \<Rightarrow> response \<Rightarrow> (exn + outcome) \<times> world" where
  \<comment> \<open>From \<open>raise_for_status\<close> on: the status, the content type and the declared
      length are checked before the body is read.\<close>
  "accept_response ev w local_path response =
     (if 400 \<le> status_code response \<and> status_code response < 600
      then (Inl RequestException, w)
      else
        let ctype = lower (case content_type response of None \<Rightarrow> [] | Some v \<Rightarrow> v)
        in if \<not> prefix ''image/'' ctype
           then (Inr (False, NonImageContentType ctype, None), count_failed w)
           else
             (case declared_too_large response of
                Inl e \<Rightarrow> (Inl e, w)
              | Inr True \<Rightarrow>
                  (Inr (False,
                        ImageTooLarge (case content_length response of
                                         None \<Rightarrow> [] | Some cl \<Rightarrow> cl),
                        None),
                   count_failed w)
              | Inr False \<Rightarrow> save_body ev w local_path response))"

definition download_try_body ::
  "env \<Rightarrow> world \<Rightarrow> pyval \<Rightarrow> string \<Rightarrow> (exn + outcome) \<times> world" where
  \<comment> \<open>The \<open>try\<close> block of \<open>_download_single_image\<close>: the outcome returned or the
      exception raised, and the state it leaves.\<close>
  "download_try_body ev w0 animal_name image_url =
     (let w = w0\<lparr>stats := (stats w0)\<lparr>attempted := attempted (stats w0) + 1\<rparr>\<rparr>
      in case create_local_image_path ev animal_name image_url of
           Inl e \<Rightarrow> (Inl e, w)
         | Inr local_path \<Rightarrow>
             if files w local_path \<noteq> None
             then (Inr (True, FileAlreadyExists, Some local_path),
                   w\<lparr>stats := (stats w)\<lparr>skipped := skipped (stats w) + 1\<rparr>\<rparr>)
             else
               let answer = http_get ev (length (requests w)) image_url;
                   w = w\<lparr>requests := requests w @ [image_url]\<rparr>
               in (case answer of
                     Inl e \<Rightarrow> (Inl e, w)
                   | Inr response \<Rightarrow> accept_response ev w local_path response))"

definition download_single_image ::
  "env \<Rightarrow> world \<Rightarrow> pyval \<Rightarrow> string \<Rightarrow> outcome \<times> world" where
  \<comment> \<open>\<open>downloader/image_downloader.py\<close>, \<open>_download_single_image\<close>: the handlers
      turn every exception into a failure outcome.\<close>
  "download_single_image ev w0 animal_name image_url =
     (case download_try_body ev w0 animal_name image_url of
        (Inr out, w) \<Rightarrow> (out, w)
      | (Inl Timeout, w) \<Rightarrow> ((False, DownloadTimeout, None), count_failed w)
      | (Inl RequestException, w) \<Rightarrow> ((False, RequestError, None), count_failed w)
      | (Inl OSError, w) \<Rightarrow> ((False, FileSystemError, None), count_failed w)
      | (Inl _, w) \<Rightarrow> ((False, UnexpectedError, None), count_failed w))"


subsection \<open>The pool\<close>

type_synonym task = "pyval \<times> string"

definition get_fallback_image_urls :: "pyval \<Rightarrow> py_error + string list" where
  \<comment> \<open>\<open>_get_fallback_image_urls\<close>; \<open>sanitize_filename\<close> raises on a name that is not
      a string.\<close>
  "get_fallback_image_urls animal_name =
     (case animal_name of
        PyNone \<Rightarrow> Inl TypeError
      | PyStr name \<Rightarrow>
          Inr [''http://commons.wikimedia.org/wiki/File:''
                 @ map (\<lambda>c. if c = CHR '' '' then CHR ''_'' else c) name @ ''.jpg''])"

fun prepare_tasks ::
  "nat \<Rightarrow> entry list \<Rightarrow> entry list \<Rightarrow> task list \<Rightarrow> (task \<rightharpoonup> nat)
     \<Rightarrow> py_error + (entry list \<times> task list \<times> (task \<rightharpoonup> nat))" where
  \<comment> \<open>The loop that prepares the tasks: the index of the entry, the entries to come,
      the entries passed, \<open>download_tasks\<close> and \<open>animal_to_data_map\<close>.\<close>
  "prepare_tasks idx [] done tasks m = Inr (done, tasks, m)"
| "prepare_tasks idx (animal_entry # rest) done tasks m =
     (case animal animal_entry of
        None \<Rightarrow> Inl (KeyError ''animal'')
      | Some animal_name \<Rightarrow>
          if truthy (primary_image_url animal_entry)
          then prepare_tasks (idx + 1) rest (done @ [animal_entry])
                 (tasks @ [(animal_name, str_of (primary_image_url animal_entry))])
                 (m((animal_name, str_of (primary_image_url animal_entry)) \<mapsto> idx))
          else
            (case get_fallback_image_urls animal_name of
               Inl err \<Rightarrow> Inl err
             | Inr [] \<Rightarrow>
                 prepare_tasks (idx + 1) rest
                   (done @ [animal_entry\<lparr>local_image_path := Some PyNone,
                                          download_status := Some NoImageURLAvailable\<rparr>])
                   tasks m
             | Inr (image_url # _) \<Rightarrow>
                 prepare_tasks (idx + 1) rest (done @ [animal_entry])
                   (tasks @ [(animal_name, image_url)])
                   (m((animal_name, image_url) \<mapsto> idx))))"

fun run_tasks ::
  "env \<Rightarrow> (task \<rightharpoonup> nat) \<Rightarrow> task list \<Rightarrow> world \<Rightarrow> entry list \<Rightarrow> entry list \<times> world" where
  \<comment> \<open>The downloads of a pool that runs its tasks one at a time, each to its end, in
      the order given; each is followed by the update of \<open>animal_data\<close> that the
      loop over \<open>as_completed\<close> makes. Tasks that overlap in time are not modelled.\<close>
  "run_tasks ev m [] w animal_data = (animal_data, w)"
| "run_tasks ev m ((animal_name, image_url) # tasks) w animal_data =
     (case download_single_image ev w animal_name image_url of
        ((success, msg, local_path), w') \<Rightarrow>
          run_tasks ev m tasks w'
            (case m (animal_name, image_url) of
               None \<Rightarrow> animal_data
             | Some data_idx \<Rightarrow>
                 animal_data[data_idx := (animal_data ! data_idx)
                   \<lparr>local_image_path :=
                      Some (case local_path of None \<Rightarrow> PyNone | Some p \<Rightarrow> PyStr p),
                    download_status := Some msg,
                    download_success := Some success\<rparr>]))"

definition download_images_concurrently ::
  "env \<Rightarrow> nat list \<Rightarrow> world \<Rightarrow> entry list \<Rightarrow> py_error + (entry list \<times> world)" where
  \<comment> \<open>\<open>download_images_concurrently\<close>. The pool is modelled by the order in which
      its tasks run and complete: \<open>order\<close> lists the indices of \<open>download_tasks\<close>.\<close>
  "download_images_concurrently ev order w0 animal_data =
     (let w = w0\<lparr>stats := \<lparr>attempted = 0, successful = 0, failed = 0, skipped = 0\<rparr>\<rparr>
      in case prepare_tasks 0 animal_data [] [] Map.empty of
           Inl err \<Rightarrow> Inl err
         | Inr (data, tasks, m) \<Rightarrow>
             Inr (run_tasks ev m (map (\<lambda>i. tasks ! i) (filter (\<lambda>i. i < length tasks) order))
                    w data))"


section \<open>Auxiliary functions of the proofs\<close>



section \<open>Example data\<close>

definition new_entry :: "string \<Rightarrow> string \<Rightarrow> entry" where
  \<comment> \<open>The dict \<open>{'animal': a, 'adjective': j}\<close>\<close>
  "new_entry a j =
     \<lparr>animal = Some (PyStr a), adjective = Some (PyStr j), wiki_link = None,
      primary_image_url = None, local_image_path = None, download_status = None,
      download_success = None\<rparr>"

definition answering :: "response \<Rightarrow> env" where
  \<comment> \<open>A server that answers every request with the same response, for addresses that
      end in \<open>.jpg\<close>, on a disk that lets every file be opened.\<close>
  "answering r =
     \<lparr>url_suffix = (\<lambda>url. Inr ''.jpg''), http_get = (\<lambda>n url. Inr r),
      open_raises = (\<lambda>p. None)\<rparr>"

definition image_response :: "string option \<Rightarrow> event list \<Rightarrow> response" where
  \<comment> \<open>A response of status 200 and type \<open>image/jpeg\<close>.\<close>
  "image_response cl evs =
     \<lparr>status_code = 200, content_type = Some ''image/jpeg'', content_length = cl, body = evs\<rparr>"

definition empty_world :: world where
  "empty_world =
     \<lparr>files = Map.empty,
      stats = \<lparr>attempted = 0, successful = 0, failed = 0, skipped = 0\<rparr>,
      requests = []\<rparr>"

section \<open>Facts about strings\<close>

lemma py_in_iff: "py_in t s \<longleftrightarrow> (\<exists>pre post. s = pre @ t @ post)"
proof (induction s)
  case Nil
  then show ?case by auto
next
  case (Cons c cs)
  show ?case
  proof (cases "prefix t (c # cs)")
    case True
    then obtain post where "c # cs = t @ post" by (auto simp: prefix_def)
    then have "c # cs = [] @ t @ post" by simp
    with True show ?thesis by (metis py_in.simps(2))
  next
    case False
    have "(\<exists>pre post. c # cs = pre @ t @ post) \<longleftrightarrow> (\<exists>pre post. cs = pre @ t @ post)"
    proof
      assume "\<exists>pre post. c # cs = pre @ t @ post"
      then obtain pre post where eq: "c # cs = pre @ t @ post" by blast
      show "\<exists>pre post. cs = pre @ t @ post"
      proof (cases pre)
        case Nil
        with eq False show ?thesis by (auto simp: prefix_def)
      next
        case (Cons a pre')
        with eq have "cs = pre' @ t @ post" by simp
        then show ?thesis by blast
      qed
    next
      assume "\<exists>pre post. cs = pre @ t @ post"
      then obtain pre post where "cs = pre @ t @ post" by blast
      then have "c # cs = (c # pre) @ t @ post" by simp
      then show "\<exists>pre post. c # cs = pre @ t @ post" by blast
    qed
    with False Cons.IH show ?thesis by simp
  qed
qed

lemma lower_append: "lower (xs @ ys) = lower xs @ lower ys"
  by (simp add: lower_def)

lemma py_in_lower_iff: "py_in t (lower s) \<longleftrightarrow> contains_ci t s"
proof
  assume "py_in t (lower s)"
  then obtain pre post where "map lower_char s = pre @ t @ post"
    by (auto simp: py_in_iff lower_def)
  then obtain a r where s1: "s = a @ r" and r: "t @ post = map lower_char r"
    unfolding map_eq_append_conv by blast
  from r obtain b c where "r = b @ c" "t = map lower_char b"
    unfolding append_eq_map_conv by blast
  with s1 have "s = a @ b @ c" "map lower_char b = t" by simp_all
  then show "contains_ci t s"
    by (auto simp: contains_ci_def lower_def)
next
  assume "contains_ci t s"
  then obtain pre mid post where "s = pre @ mid @ post" "lower mid = t"
    by (auto simp: contains_ci_def)
  then have "lower s = lower pre @ t @ lower post"
    by (simp add: lower_append)
  then show "py_in t (lower s)"
    by (auto simp: py_in_iff)
qed

lemma isspace_lower_char: "isspace c \<Longrightarrow> lower_char c = c"
  by (auto simp add: isspace_def lower_char_def)

lemma not_isspace_lower_char: "\<not> isspace (lower_char c) \<Longrightarrow> \<not> isspace c"
  using isspace_lower_char by fastforce

lemma strip_keeps_middle:
  assumes "mid \<noteq> []" "\<not> isspace (hd mid)" "\<not> isspace (last mid)"
  shows "\<exists>pre' post'. strip (pre @ mid @ post) = pre' @ mid @ post'"
proof -
  from assms obtain y ys where mid: "mid = y # ys" and y: "\<not> isspace y"
    by (cases mid) auto
  have l: "lstrip (pre @ mid @ post) = dropWhile isspace pre @ mid @ post"
    using y by (simp add: lstrip_def mid dropWhile_append3)
  from assms obtain z zs where rmid: "rev mid = z # zs" and z: "\<not> isspace z"
    by (cases "rev mid") (auto simp: last_rev [symmetric] simp del: last_rev)
  have "rev (dropWhile isspace pre @ mid @ post) = rev post @ z # (zs @ rev (dropWhile isspace pre))"
    using rmid by simp
  then have "dropWhile isspace (rev (dropWhile isspace pre @ mid @ post))
      = dropWhile isspace (rev post) @ z # (zs @ rev (dropWhile isspace pre))"
    using z dropWhile_append3 [of isspace z "rev post" "zs @ rev (dropWhile isspace pre)"]
    by simp
  then have "rstrip (dropWhile isspace pre @ mid @ post)
      = dropWhile isspace pre @ rev (z # zs) @ rev (dropWhile isspace (rev post))"
    by (simp add: rstrip_def)
  with rmid [symmetric] l show ?thesis
    by (simp add: strip_def) (metis rev_rev_ident)
qed

section \<open>Text normalizer\<close>

text \<open>
  Claim C2 says that no output of the normalizer holds two whitespace characters in a
  row, nor a citation marker. The source collapses the whitespace first and removes the
  markers after, in one pass: on \<open>a [1] b\<close> the two spaces around the marker meet, and on
  \<open>[[1]2]\<close> the removal of the inner marker leaves the marker \<open>[2]\<close>.
\<close>

theorem normalize_text_leaves_run_and_marker:
  "normalize_text ''a [1] b'' = ''a  b'' \<and> normalize_text ''[[1]2]'' = ''[2]''"
  by code_simp

section \<open>Deduplicator: proofs\<close>










section \<open>Validator: proofs\<close>

lemma invalid_terms_ends:
  "t \<in> set invalid_terms \<Longrightarrow> t \<noteq> [] \<and> \<not> isspace (hd t) \<and> \<not> isspace (last t)"
  by (auto simp: invalid_terms_def isspace_def)

lemma contains_ci_strip:
  assumes "contains_ci t k" "t \<in> set invalid_terms"
  shows "contains_ci t (strip k)"
proof -
  from assms(1) obtain pre mid post where k: "k = pre @ mid @ post" and mid: "lower mid = t"
    by (auto simp: contains_ci_def)
  from invalid_terms_ends [OF assms(2)] mid have ne: "mid \<noteq> []"
    by (auto simp: lower_def)
  with mid have "hd t = lower_char (hd mid)" "last t = lower_char (last mid)"
    by (auto simp: lower_def hd_map last_map)
  with invalid_terms_ends [OF assms(2)] have "\<not> isspace (hd mid)" "\<not> isspace (last mid)"
    using not_isspace_lower_char by auto
  from strip_keeps_middle [OF ne this, of pre post] k mid show ?thesis
    by (auto simp: contains_ci_def)
qed

lemma fst_validate_entries: "fst (validate_entries es) = filter validate_animal_entry es"
  by (induction es) (auto split: prod.splits)

text \<open>
  Claim C10. The denylist is matched by containment: an entry whose key holds one of
  the nine terms anywhere within it, in any case, fails the validation and is not among
  the entries the validation step keeps; so does a key with \<open>male\<close> inside a longer
  word.
\<close>

theorem validator_rejects_key_containing_term:
  assumes "animal e = Some (PyStr k)"
    and "t \<in> set [''see also'', ''references'', ''external links'', ''notes'',
                   ''male'', ''female'', ''young'', ''group'', ''adjective'']"
    and "contains_ci t k"
  shows "\<not> validate_animal_entry e \<and> e \<notin> set (fst (validate_entries es))"
proof -
  from assms(2) have t: "t \<in> set invalid_terms"
    by (simp add: invalid_terms_def)
  from contains_ci_strip [OF assms(3) t] have "py_in t (lower (strip k))"
    by (simp add: py_in_lower_iff)
  with t have "list_ex (\<lambda>t. py_in t (lower (strip k))) invalid_terms"
    by (auto simp: list_ex_iff)
  then have "\<not> is_valid_animal_name (strip k)"
    by (simp add: is_valid_animal_name_def)
  with assms(1) have "\<not> validate_animal_entry e"
    by (simp add: validate_animal_entry_def Let_def)
  then show ?thesis
    by (simp add: fst_validate_entries)
qed

theorem validator_rejects_key_containing_term_witness:
  "\<not> validate_animal_entry (new_entry ''Alaskan Malemute'' ''canine'')
   \<and> new_entry ''Alaskan Malemute'' ''canine''
       \<notin> set (fst (validate_entries
                     [new_entry ''Lion'' ''leonine'', new_entry ''Alaskan Malemute'' ''canine'']))
   \<and> validate_animal_entry (new_entry ''Lion'' ''leonine'')"
proof -
  have a: "animal (new_entry ''Alaskan Malemute'' ''canine'') = Some (PyStr ''Alaskan Malemute'')"
    by (simp add: new_entry_def)
  have b: "''male'' \<in> set [''see also'', ''references'', ''external links'', ''notes'',
                   ''male'', ''female'', ''young'', ''group'', ''adjective'']"
    by simp
  have "''Alaskan Malemute'' = ''Alaskan '' @ ''Male'' @ ''mute''" "lower ''Male'' = ''male''"
    by code_simp+
  then have c: "contains_ci ''male'' ''Alaskan Malemute''"
    unfolding contains_ci_def by blast
  have d: "validate_animal_entry (new_entry ''Lion'' ''leonine'')"
    by code_simp
  from validator_rejects_key_containing_term [OF a b c] d show ?thesis
    by blast
qed


section \<open>Table classifier: proofs\<close>

lemma has_indicator_lower:
  "has_indicator (lower cell) \<longleftrightarrow> (\<exists>ind\<in>set collateral_indicators. contains_ci ind cell)"
  by (simp add: has_indicator_def list_ex_iff py_in_lower_iff)

lemma identify_loop_filter:
  "identify_loop ts =
     filter (\<lambda>t. rows t \<noteq> [] \<and> (\<exists>cell\<in>set (hd (rows t)). has_indicator (lower cell))) ts"
  by (induction ts) (auto simp: list_ex_iff split: list.splits)

lemma find_index_from_found:
  "\<exists>cell\<in>set cells. has_indicator (lower cell) \<Longrightarrow>
   \<exists>i<length cells. find_index_from n cells = n + int i \<and> has_indicator (lower (cells ! i))
      \<and> (\<forall>j<i. \<not> has_indicator (lower (cells ! j)))"
proof (induction cells arbitrary: n)
  case Nil
  then show ?case by simp
next
  case (Cons c cs)
  show ?case
  proof (cases "has_indicator (lower c)")
    case True
    then have "find_index_from n (c # cs) = n + int 0 \<and> has_indicator (lower ((c # cs) ! 0))
        \<and> (\<forall>j<0. \<not> has_indicator (lower ((c # cs) ! j)))"
      by simp
    then show ?thesis by blast
  next
    case False
    with Cons.prems have "\<exists>cell\<in>set cs. has_indicator (lower cell)" by simp
    from Cons.IH [OF this, of "n + 1"] obtain i where i: "i < length cs"
      "find_index_from (n + 1) cs = n + 1 + int i" "has_indicator (lower (cs ! i))"
      "\<forall>j<i. \<not> has_indicator (lower (cs ! j))" by blast
    with False have "Suc i < length (c # cs) \<and> find_index_from n (c # cs) = n + int (Suc i)
        \<and> has_indicator (lower ((c # cs) ! Suc i))
        \<and> (\<forall>j<Suc i. \<not> has_indicator (lower ((c # cs) ! j)))"
      by (auto simp: less_Suc_eq_0_disj)
    then show ?thesis by blast
  qed
qed

lemma find_index_from_none:
  "\<not> (\<exists>cell\<in>set cells. has_indicator (lower cell)) \<Longrightarrow> find_index_from n cells = - 1"
  by (induction cells arbitrary: n) auto

text \<open>
  Claim C9, as the code has it. The classifier scans the tables of class \<open>wikitable\<close>
  only. Of these it selects, in document order, the tables that have a first row of
  which some cell contains, in any case, one of the indicators. The column index is
  that of the leftmost such cell of the header row, and -1 when there is none. The header
  Animal, Collateral Adjective, Other is selected with index 1; the header Animal,
  Habitat, Diet is excluded; a table with no row is passed over.
\<close>

theorem classifier_selects_wikitables_by_header:
  "identify_collateral_adjective_tables soup =
     filter (\<lambda>t. ''wikitable'' \<in> set (css_classes t) \<and> rows t \<noteq> []
                 \<and> (\<exists>cell\<in>set (hd (rows t)). \<exists>ind\<in>set collateral_indicators. contains_ci ind cell))
       soup
   \<and> ((\<exists>cell\<in>set header. \<exists>ind\<in>set collateral_indicators. contains_ci ind cell) \<longrightarrow>
        (\<exists>i<length header.
           find_collateral_adjective_column_index header = int i
           \<and> (\<exists>ind\<in>set collateral_indicators. contains_ci ind (header ! i))
           \<and> (\<forall>j<i. \<not> (\<exists>ind\<in>set collateral_indicators. contains_ci ind (header ! j)))))
   \<and> (\<not> (\<exists>cell\<in>set header. \<exists>ind\<in>set collateral_indicators. contains_ci ind cell) \<longrightarrow>
        find_collateral_adjective_column_index header = - 1)
   \<and> identify_collateral_adjective_tables
        [\<lparr>css_classes = [''wikitable''],
          rows = [[''Animal'', ''Collateral Adjective'', ''Other''], [''Lion'', ''leonine'', ''x'']]\<rparr>,
         \<lparr>css_classes = [''wikitable''], rows = [[''Animal'', ''Habitat'', ''Diet'']]\<rparr>,
         \<lparr>css_classes = [''wikitable''], rows = []\<rparr>]
      = [\<lparr>css_classes = [''wikitable''],
          rows = [[''Animal'', ''Collateral Adjective'', ''Other''], [''Lion'', ''leonine'', ''x'']]\<rparr>]
   \<and> find_collateral_adjective_column_index [''Animal'', ''Collateral Adjective'', ''Other''] = 1
   \<and> find_collateral_adjective_column_index [''Animal'', ''Habitat'', ''Diet''] = - 1"
proof (intro conjI impI)
  show "identify_collateral_adjective_tables soup =
     filter (\<lambda>t. ''wikitable'' \<in> set (css_classes t) \<and> rows t \<noteq> []
                 \<and> (\<exists>cell\<in>set (hd (rows t)). \<exists>ind\<in>set collateral_indicators. contains_ci ind cell))
       soup"
    by (simp add: identify_collateral_adjective_tables_def identify_loop_filter
          has_indicator_lower conj_ac)
next
  assume "\<exists>cell\<in>set header. \<exists>ind\<in>set collateral_indicators. contains_ci ind cell"
  then have "\<exists>cell\<in>set header. has_indicator (lower cell)"
    by (simp add: has_indicator_lower)
  from find_index_from_found [OF this, of 0]
  show "\<exists>i<length header.
           find_collateral_adjective_column_index header = int i
           \<and> (\<exists>ind\<in>set collateral_indicators. contains_ci ind (header ! i))
           \<and> (\<forall>j<i. \<not> (\<exists>ind\<in>set collateral_indicators. contains_ci ind (header ! j)))"
    by (simp add: find_collateral_adjective_column_index_def has_indicator_lower)
next
  assume "\<not> (\<exists>cell\<in>set header. \<exists>ind\<in>set collateral_indicators. contains_ci ind cell)"
  then have "\<not> (\<exists>cell\<in>set header. has_indicator (lower cell))"
    by (simp add: has_indicator_lower)
  from find_index_from_none [OF this, of 0]
  show "find_collateral_adjective_column_index header = - 1"
    by (simp add: find_collateral_adjective_column_index_def)
next
  show "identify_collateral_adjective_tables
        [\<lparr>css_classes = [''wikitable''],
          rows = [[''Animal'', ''Collateral Adjective'', ''Other''], [''Lion'', ''leonine'', ''x'']]\<rparr>,
         \<lparr>css_classes = [''wikitable''], rows = [[''Animal'', ''Habitat'', ''Diet'']]\<rparr>,
         \<lparr>css_classes = [''wikitable''], rows = []\<rparr>]
      = [\<lparr>css_classes = [''wikitable''],
          rows = [[''Animal'', ''Collateral Adjective'', ''Other''], [''Lion'', ''leonine'', ''x'']]\<rparr>]"
    by code_simp
next
  show "find_collateral_adjective_column_index [''Animal'', ''Collateral Adjective'', ''Other''] = 1"
    by code_simp
next
  show "find_collateral_adjective_column_index [''Animal'', ''Habitat'', ''Diet''] = - 1"
    by code_simp
qed

text \<open>
  Claim C9 as stated fails on a table that is not of class \<open>wikitable\<close>: its header
  holds an indicator, and the classifier does not select it.
\<close>

theorem classifier_skips_other_tables:
  "has_indicator (lower ''Collateral Adjective'')
   \<and> identify_collateral_adjective_tables
        [\<lparr>css_classes = [''sortable''],
          rows = [[''Animal'', ''Collateral Adjective'', ''Other'']]\<rparr>] = []"
  by code_simp


theorem classifier_selects_wikitables_by_header_witness:
  "(\<exists>cell\<in>set [''Animal'', ''Collateral Adjective'', ''Other''].
      \<exists>ind\<in>set collateral_indicators. contains_ci ind cell)
   \<and> (\<exists>i<length [''Animal'', ''Collateral Adjective'', ''Other''].
         find_collateral_adjective_column_index [''Animal'', ''Collateral Adjective'', ''Other'']
           = int i
         \<and> (\<exists>ind\<in>set collateral_indicators.
               contains_ci ind ([''Animal'', ''Collateral Adjective'', ''Other''] ! i))
         \<and> (\<forall>j<i. \<not> (\<exists>ind\<in>set collateral_indicators.
               contains_ci ind ([''Animal'', ''Collateral Adjective'', ''Other''] ! j))))"
proof -
  have "has_indicator (lower ''Collateral Adjective'')"
    by code_simp
  then have "\<exists>ind\<in>set collateral_indicators. contains_ci ind ''Collateral Adjective''"
    by (simp only: has_indicator_lower)
  then have h: "\<exists>cell\<in>set [''Animal'', ''Collateral Adjective'', ''Other''].
      \<exists>ind\<in>set collateral_indicators. contains_ci ind cell"
    by simp
  note th = classifier_selects_wikitables_by_header
    [where header = "[''Animal'', ''Collateral Adjective'', ''Other'']"]
  show ?thesis
    by (intro conjI h th [THEN conjunct2, THEN conjunct1, THEN mp, OF h])
qed


section \<open>Multi-value splitter: proofs\<close>

lemma split_from_absent:
  "\<not> py_in sep adj \<Longrightarrow> split_from sep cur adj = [cur @ adj]"
  by (induction adj arbitrary: cur) (auto split: if_splits)

lemma split_each_concat:
  "split_each sep adjs = concat (map (split_from sep []) adjs)"
  by (induction adjs) (auto simp: split_from_absent)

lemma apply_separators_foldl:
  "apply_separators seps adjs = foldl (\<lambda>fs sep. concat (map (split_from sep []) fs)) adjs seps"
  by (induction seps arbitrary: adjs) (auto simp: split_each_concat)

lemma clean_adjectives_filter:
  "clean_adjectives adjs =
     filter (\<lambda>c. length c > 1 \<and> lower c \<notin> set null_values) (map normalize_text adjs)"
  by (induction adjs) (auto simp: Let_def)

lemma if_differs: "(if a \<noteq> b then a else b) = a"
  by simp

lemma if_nonempty: "(if xs \<noteq> [] then xs else ys) = (if xs = [] then ys else xs)"
  by simp

text \<open>
  Claim C1, as the code has it. The text split is the normalized text of the markup
  with its line breaks turned into commas. The six separators are applied in order,
  each to every fragment the one before produced; every fragment is normalized, and
  the fragments of one character or less, or equal to a sentinel, are dropped; when
  none is left the result is the text itself. On \<open>A, B and C\<close> the cascade gives the
  fragments \<open>A\<close>, \<open> B\<close> and \<open>C\<close>, which normalize to one character each and are
  dropped, so the result is the one-element list of the whole text. On \<open>Aa, Bb and Cc\<close>
  the result is the three values.
\<close>

theorem splitter_cascade_and_short_fragments:
  "split_multiple_adjectives get_text html text =
     (let final_text = normalize_text (get_text (sub_br html));
          fragments = foldl (\<lambda>fs sep. concat (map (split_from sep []) fs)) [final_text]
                        ['','', '';'', '' or '', '' and '', ''/'', '' & ''];
          cleaned = filter (\<lambda>c. length c > 1 \<and> lower c \<notin> set [''n/a'', ''none'', ''-''])
                      (map normalize_text fragments)
      in if cleaned = [] then [final_text] else cleaned)
   \<and> apply_separators separators [''A, B and C''] = [''A'', '' B'', ''C'']
   \<and> map normalize_text [''A'', '' B'', ''C''] = [''A'', ''B'', ''C'']
   \<and> split_multiple_adjectives plain_text ''A, B and C'' ''A, B and C'' = [''A, B and C'']
   \<and> split_multiple_adjectives plain_text ''Aa, Bb and Cc'' ''Aa, Bb and Cc''
       = [''Aa'', ''Bb'', ''Cc'']"
proof (intro conjI)
  show "split_multiple_adjectives get_text html text =
     (let final_text = normalize_text (get_text (sub_br html));
          fragments = foldl (\<lambda>fs sep. concat (map (split_from sep []) fs)) [final_text]
                        ['','', '';'', '' or '', '' and '', ''/'', '' & ''];
          cleaned = filter (\<lambda>c. length c > 1 \<and> lower c \<notin> set [''n/a'', ''none'', ''-''])
                      (map normalize_text fragments)
      in if cleaned = [] then [final_text] else cleaned)"
    unfolding split_multiple_adjectives_def Let_def apply_separators_foldl
      clean_adjectives_filter separators_def null_values_def if_differs if_nonempty
    by (rule refl)
next
  show "apply_separators separators [''A, B and C''] = [''A'', '' B'', ''C'']"
    by code_simp
next
  show "map normalize_text [''A'', '' B'', ''C''] = [''A'', ''B'', ''C'']"
    by code_simp
next
  show "split_multiple_adjectives plain_text ''A, B and C'' ''A, B and C'' = [''A, B and C'']"
    by code_simp
next
  show "split_multiple_adjectives plain_text ''Aa, Bb and Cc'' ''Aa, Bb and Cc''
       = [''Aa'', ''Bb'', ''Cc'']"
    by code_simp
qed

text \<open>
  Claim C1 as stated fails: on \<open>A, B and C\<close> the splitter does not return the three
  letters.
\<close>

theorem splitter_drops_one_letter_fragments:
  "split_multiple_adjectives plain_text ''A, B and C'' ''A, B and C'' \<noteq> [''A'', ''B'', ''C'']"
  by code_simp


section \<open>Metadata lookup: proofs\<close>

lemma api_handlers_return:
  "animal_wiki_name \<noteq> [] \<Longrightarrow> cache animal_wiki_name = None \<Longrightarrow>
   api_try_body api_get animal_wiki_name = Inl e \<Longrightarrow>
   get_animal_image_from_api api_get cache animal_wiki_name
     = Inr (None, cache(animal_wiki_name \<mapsto> None))"
  by (cases e) (simp_all add: get_animal_image_from_api_def)

lemma api_never_raises:
  "\<exists>r c. get_animal_image_from_api api_get cache animal_wiki_name = Inr (r, c)"
proof (cases "animal_wiki_name = [] \<or> cache animal_wiki_name \<noteq> None")
  case True
  then show ?thesis
    by (auto simp: get_animal_image_from_api_def)
next
  case False
  show ?thesis
  proof (cases "api_try_body api_get animal_wiki_name")
    case (Inl e)
    with False api_handlers_return [of animal_wiki_name cache api_get e] show ?thesis
      by simp
  next
    case (Inr image_url)
    with False show ?thesis
      by (simp add: get_animal_image_from_api_def)
  qed
qed

text \<open>
  Claim C8 says that a response of status 304 makes the lookup return none, as the
  docstring and the comment of the branch for that status say. The branch only logs:
  the two lines that would store and return \<open>None\<close> are commented out, and the body
  is read as that of any response. A response of status 304 whose body holds a
  thumbnail gives its locator, which is cached. Nor is every body that is not as
  expected answered by none: a thumbnail whose source is the number 7 gives 7.
\<close>

theorem not_modified_response_is_read_like_any_other:
  "get_animal_image_from_api
     (\<lambda>name. Inr \<lparr>api_status = 304,
                    api_json = Inr (JObj [(''thumbnail'',
                      JObj [(''source'', JStr ''https://upload.wikimedia.org/lion.jpg'')])])\<rparr>)
     Map.empty ''Lion''
   = Inr (Some (JStr ''https://upload.wikimedia.org/lion.jpg''),
          [''Lion'' \<mapsto> Some (JStr ''https://upload.wikimedia.org/lion.jpg'')])
   \<and> get_animal_image_from_api
       (\<lambda>name. Inr \<lparr>api_status = 200,
                      api_json = Inr (JObj [(''thumbnail'', JObj [(''source'', JNum 7)])])\<rparr>)
       Map.empty ''Lion''
     = Inr (Some (JNum 7), [''Lion'' \<mapsto> Some (JNum 7)])"
  by (simp add: get_animal_image_from_api_def api_try_body_def py_of_json_def)

section \<open>Fetch orchestrator: proofs\<close>

lemma requests_count_failed [simp]: "requests (count_failed w) = requests w"
  by (simp add: count_failed_def)

lemma files_count_failed [simp]: "files (count_failed w) = files w"
  by (simp add: count_failed_def)

lemma requests_unlink [simp]: "requests (unlink p w) = requests w"
  by (simp add: unlink_def)

lemma files_unlink [simp]: "files (unlink p w) = (files w)(p := None)"
  by (simp add: unlink_def)

lemma requests_write_chunk [simp]: "requests (write_chunk p n w) = requests w"
  by (simp add: write_chunk_def)

lemma stream_loop_requests: "requests (snd (stream_loop p t evs w)) = requests w"
proof (induction p t evs w rule: stream_loop.induct)
  case (1 p total_size w)
  then show ?case by simp
next
  case (2 p total_size e evs w)
  then show ?case by simp
next
  case (3 p total_size n evs w)
  then show ?case by (simp add: Let_def)
qed

lemma stream_loop_returned:
  "stream_loop p t evs w = (Returned out, w') \<Longrightarrow> out = (False, ImageTooLargeDuringDownload, None)"
proof (induction p t evs w rule: stream_loop.induct)
  case (1 p total_size w)
  then show ?case by simp
next
  case (2 p total_size e evs w)
  then show ?case by simp
next
  case (3 p total_size n evs w)
  then show ?case by (simp add: Let_def split: if_splits)
qed

lemma stream_loop_exceeds:
  "t + sum_list pre > MAX_IMAGE_SIZE \<Longrightarrow> t \<le> MAX_IMAGE_SIZE \<Longrightarrow>
   \<exists>w'. stream_loop p t (map Chunk pre @ post) w
           = (Returned (False, ImageTooLargeDuringDownload, None), w')
        \<and> files w' p = None"
proof (induction pre arbitrary: t w)
  case Nil
  then show ?case by simp
next
  case (Cons n pre)
  show ?case
  proof (cases "n = 0")
    case True
    with Cons.prems Cons.IH [of t w] show ?thesis by simp
  next
    case False
    show ?thesis
    proof (cases "t + n > MAX_IMAGE_SIZE")
      case True
      with False show ?thesis by (simp add: Let_def)
    next
      case over: False
      with Cons.prems Cons.IH [of "t + n" "write_chunk p n w"] False show ?thesis
        by (simp add: Let_def add.assoc)
    qed
  qed
qed


lemma save_body_requests: "requests (snd (save_body ev w p r)) = requests w"
proof (cases "open_raises ev p")
  case (Some e)
  then show ?thesis by (simp add: save_body_def)
next
  case None
  obtain res w' where loop: "stream_loop p 0 (body r) (w\<lparr>files := (files w)(p \<mapsto> 0)\<rparr>) = (res, w')"
    by (cases "stream_loop p 0 (body r) (w\<lparr>files := (files w)(p \<mapsto> 0)\<rparr>)")
  from stream_loop_requests [of p 0 "body r" "w\<lparr>files := (files w)(p \<mapsto> 0)\<rparr>"] loop
  have "requests w' = requests w" by simp
  with None loop show ?thesis
    by (cases res) (simp_all add: save_body_def)
qed

lemma save_body_outcome:
  "save_body ev w p r = (Inr out, w') \<Longrightarrow> fst (snd out) \<noteq> FileAlreadyExists"
proof (cases "open_raises ev p")
  case (Some e)
  assume "save_body ev w p r = (Inr out, w')"
  with Some show ?thesis by (simp add: save_body_def)
next
  case None
  assume run: "save_body ev w p r = (Inr out, w')"
  obtain res w1 where loop: "stream_loop p 0 (body r) (w\<lparr>files := (files w)(p \<mapsto> 0)\<rparr>) = (res, w1)"
    by (cases "stream_loop p 0 (body r) (w\<lparr>files := (files w)(p \<mapsto> 0)\<rparr>)")
  show ?thesis
  proof (cases res)
    case (Raised e)
    with None loop run show ?thesis by (simp add: save_body_def)
  next
    case (Returned o1)
    with loop stream_loop_returned have "o1 = (False, ImageTooLargeDuringDownload, None)"
      by blast
    with Returned None loop run show ?thesis by (auto simp: save_body_def)
  next
    case (Completed n)
    with None loop run show ?thesis by (auto simp: save_body_def split: if_splits)
  qed
qed

lemma accept_response_requests: "requests (snd (accept_response ev w p r)) = requests w"
  by (auto simp: accept_response_def Let_def save_body_requests split: sum.splits bool.splits)

lemma accept_response_outcome:
  "accept_response ev w p r = (Inr out, w') \<Longrightarrow> fst (snd out) \<noteq> FileAlreadyExists"
  by (auto simp: accept_response_def Let_def split: sum.splits bool.splits if_splits
           dest: save_body_outcome)


lemma handlers_returned:
  "download_try_body ev w name url = (Inr out, w') \<Longrightarrow>
   download_single_image ev w name url = (out, w')"
  by (simp add: download_single_image_def)

lemma handlers_raised:
  "download_try_body ev w name url = (Inl e, w') \<Longrightarrow>
   \<exists>msg. download_single_image ev w name url = ((False, msg, None), count_failed w')
        \<and> msg \<noteq> FileAlreadyExists"
  by (cases e) (simp_all add: download_single_image_def)

lemma try_body_skip:
  "create_local_image_path ev name url = Inr p \<Longrightarrow> files w p \<noteq> None \<Longrightarrow>
   download_try_body ev w name url
     = (Inr (True, FileAlreadyExists, Some p),
        w\<lparr>stats := (stats w)\<lparr>attempted := attempted (stats w) + 1,
                              skipped := skipped (stats w) + 1\<rparr>\<rparr>)"
  by (auto simp: download_try_body_def Let_def)

lemma try_body_no_path:
  "create_local_image_path ev name url = Inl e \<Longrightarrow>
   download_try_body ev w name url
     = (Inl e, w\<lparr>stats := (stats w)\<lparr>attempted := attempted (stats w) + 1\<rparr>\<rparr>)"
  by (simp add: download_try_body_def Let_def)

lemma try_body_fetch:
  "create_local_image_path ev name url = Inr p \<Longrightarrow> files w p = None \<Longrightarrow>
   download_try_body ev w name url
     = (case http_get ev (length (requests w)) url of
          Inl e \<Rightarrow>
            (Inl e, w\<lparr>stats := (stats w)\<lparr>attempted := attempted (stats w) + 1\<rparr>,
                      requests := requests w @ [url]\<rparr>)
        | Inr r \<Rightarrow>
            accept_response ev
              (w\<lparr>stats := (stats w)\<lparr>attempted := attempted (stats w) + 1\<rparr>,
                 requests := requests w @ [url]\<rparr>) p r)"
  by (simp add: download_try_body_def Let_def split: sum.splits)

lemma download_skip:
  assumes "create_local_image_path ev name url = Inr p" "files w p \<noteq> None"
  shows "download_single_image ev w name url
     = ((True, FileAlreadyExists, Some p),
        w\<lparr>stats := (stats w)\<lparr>attempted := attempted (stats w) + 1,
                              skipped := skipped (stats w) + 1\<rparr>\<rparr>)"
  using handlers_returned [OF try_body_skip [OF assms]] .

lemma download_fetch:
  assumes "create_local_image_path ev name url = Inr p" "files w p = None"
  shows "requests (snd (download_single_image ev w name url)) = requests w @ [url]
     \<and> fst (snd (fst (download_single_image ev w name url))) \<noteq> FileAlreadyExists"
proof -
  let ?w = "w\<lparr>stats := (stats w)\<lparr>attempted := attempted (stats w) + 1\<rparr>,
                 requests := requests w @ [url]\<rparr>"
  obtain res w' where body: "download_try_body ev w name url = (res, w')"
    by (cases "download_try_body ev w name url")
  have req: "requests w' = requests w @ [url]"
  proof (cases "http_get ev (length (requests w)) url")
    case (Inl e)
    with try_body_fetch [OF assms] body show ?thesis by auto
  next
    case (Inr r)
    with try_body_fetch [OF assms] body have "accept_response ev ?w p r = (res, w')" by simp
    with accept_response_requests [of ev ?w p r] show ?thesis by simp
  qed
  show ?thesis
  proof (cases res)
    case (Inl e)
    with body handlers_raised [of ev w name url e w'] req show ?thesis by auto
  next
    case (Inr out)
    have "fst (snd out) \<noteq> FileAlreadyExists"
    proof (cases "http_get ev (length (requests w)) url")
      case (Inl e)
      with try_body_fetch [OF assms] body Inr show ?thesis by auto
    next
      case r: (Inr r)
      with try_body_fetch [OF assms] body Inr have "accept_response ev ?w p r = (Inr out, w')"
        by simp
      then show ?thesis by (rule accept_response_outcome)
    qed
    with body Inr handlers_returned [of ev w name url out w'] req show ?thesis by simp
  qed
qed

lemma download_no_path:
  assumes "create_local_image_path ev name url = Inl e"
  shows "requests (snd (download_single_image ev w name url)) = requests w"
  using handlers_raised [OF try_body_no_path [OF assms], of w] by auto


text \<open>
  Claim C3, as the code has it. For a task with a destination path, the download is
  skipped (the outcome is the success \<open>File already exists\<close> and no request is sent)
  if and only if the destination file exists, whatever its size. A skipped task leaves
  the files as they were; a task whose destination does not exist sends its request.
\<close>

theorem skip_iff_destination_exists:
  assumes "create_local_image_path ev name url = Inr p"
  shows "((fst (download_single_image ev w name url) = (True, FileAlreadyExists, Some p)
           \<and> requests (snd (download_single_image ev w name url)) = requests w)
          \<longleftrightarrow> files w p \<noteq> None)
     \<and> (files w p \<noteq> None \<longrightarrow> files (snd (download_single_image ev w name url)) = files w)
     \<and> (files w p = None \<longrightarrow>
          requests (snd (download_single_image ev w name url)) = requests w @ [url])"
proof (cases "files w p = None")
  case True
  from download_fetch [OF assms True] True show ?thesis by auto
next
  case False
  from download_skip [OF assms False] False show ?thesis by simp
qed

theorem skip_iff_destination_exists_witness:
  "create_local_image_path (answering (image_response None [Chunk 10])) (PyStr ''Lion'')
       ''http://example.com/lion.jpg'' = Inr ''/tmp/lion_image.jpg''
   \<and> files empty_world ''/tmp/lion_image.jpg'' = None
   \<and> requests (snd (download_single_image (answering (image_response None [Chunk 10]))
                      empty_world (PyStr ''Lion'') ''http://example.com/lion.jpg''))
       = requests empty_world @ [''http://example.com/lion.jpg'']"
proof -
  have path: "create_local_image_path (answering (image_response None [Chunk 10])) (PyStr ''Lion'')
       ''http://example.com/lion.jpg'' = Inr ''/tmp/lion_image.jpg''"
    by code_simp
  have absent: "files empty_world ''/tmp/lion_image.jpg'' = None"
    by (simp add: empty_world_def)
  note th = skip_iff_destination_exists [OF path, of empty_world,
      THEN conjunct2, THEN conjunct2, THEN mp, OF absent]
  show ?thesis
    by (intro conjI path absent th)
qed

text \<open>
  Claim C3 as stated fails on a destination file that exists with size zero: the task
  is skipped, and no request is sent.
\<close>

theorem empty_file_is_skipped:
  "files (empty_world\<lparr>files := [''/tmp/lion_image.jpg'' \<mapsto> 0]\<rparr>) ''/tmp/lion_image.jpg'' = Some 0
   \<and> fst (download_single_image (answering (image_response None [Chunk 10]))
            (empty_world\<lparr>files := [''/tmp/lion_image.jpg'' \<mapsto> 0]\<rparr>)
            (PyStr ''Lion'') ''http://example.com/lion.jpg'')
       = (True, FileAlreadyExists, Some ''/tmp/lion_image.jpg'')
   \<and> requests (snd (download_single_image (answering (image_response None [Chunk 10]))
            (empty_world\<lparr>files := [''/tmp/lion_image.jpg'' \<mapsto> 0]\<rparr>)
            (PyStr ''Lion'') ''http://example.com/lion.jpg'')) = []"
  by code_simp


lemma sent_request:
  assumes "requests (snd (download_single_image ev w name url)) = requests w @ [url]"
  shows "\<exists>p. create_local_image_path ev name url = Inr p \<and> files w p = None"
proof (cases "create_local_image_path ev name url")
  case (Inl e)
  from download_no_path [OF Inl, of w] assms show ?thesis by simp
next
  case (Inr p)
  show ?thesis
  proof (cases "files w p = None")
    case True
    with Inr show ?thesis by simp
  next
    case False
    from download_skip [OF Inr False] assms show ?thesis by simp
  qed
qed

lemma int_of_str_nonempty: "int_of_str cl = Some n \<Longrightarrow> cl \<noteq> []"
  by (auto simp: int_of_str_def)

lemma accept_response_too_large:
  assumes "content_length r = Some cl" "int_of_str cl = Some n" "n > int MAX_IMAGE_SIZE"
  shows "\<exists>res w'. accept_response ev w p r = (res, w') \<and> files w' = files w
           \<and> (\<forall>out. res = Inr out \<longrightarrow> \<not> fst out)"
proof -
  from assms int_of_str_nonempty [OF assms(2)] have "declared_too_large r = Inr True"
    by (simp add: declared_too_large_def)
  then show ?thesis
    by (simp add: accept_response_def Let_def)
qed

lemma download_after_accept:
  assumes path: "create_local_image_path ev name url = Inr p" and absent: "files w p = None"
    and answer: "http_get ev (length (requests w)) url = Inr r"
    and acc: "accept_response ev
                (w\<lparr>stats := (stats w)\<lparr>attempted := attempted (stats w) + 1\<rparr>,
                   requests := requests w @ [url]\<rparr>) p r = (res, w')"
  shows "(\<forall>out. res = Inr out \<longrightarrow> download_single_image ev w name url = (out, w'))
       \<and> (\<forall>e. res = Inl e \<longrightarrow> \<not> fst (fst (download_single_image ev w name url)))
       \<and> files (snd (download_single_image ev w name url)) = files w'"
proof -
  from try_body_fetch [OF path absent] answer acc
  have body: "download_try_body ev w name url = (res, w')" by simp
  show ?thesis
  proof (cases res)
    case (Inl e)
    with body handlers_raised [of ev w name url e w'] show ?thesis by auto
  next
    case (Inr out)
    with body handlers_returned [of ev w name url out w'] show ?thesis by simp
  qed
qed

text \<open>
  Claim C5. A task that sends its request and is answered by a response whose
  \<open>content-length\<close> header reads as a number above the ceiling ends in a failure
  outcome and leaves the files of the download directory as they were.
\<close>

theorem oversize_declared_fails_without_file:
  assumes "requests (snd (download_single_image ev w name url)) = requests w @ [url]"
    and "http_get ev (length (requests w)) url = Inr r"
    and "content_length r = Some cl" and "int_of_str cl = Some n" and "n > int MAX_IMAGE_SIZE"
  shows "\<not> fst (fst (download_single_image ev w name url))
     \<and> files (snd (download_single_image ev w name url)) = files w"
proof -
  let ?w = "w\<lparr>stats := (stats w)\<lparr>attempted := attempted (stats w) + 1\<rparr>,
                 requests := requests w @ [url]\<rparr>"
  from sent_request [OF assms(1)] obtain p
    where path: "create_local_image_path ev name url = Inr p" and absent: "files w p = None"
    by blast
  from accept_response_too_large [OF assms(3) assms(4) assms(5), of ev ?w p] obtain res w'
    where acc: "accept_response ev ?w p r = (res, w')" and same: "files w' = files ?w"
      and fail: "\<forall>out. res = Inr out \<longrightarrow> \<not> fst out"
    by blast
  note after = download_after_accept [OF path absent assms(2) acc]
  show ?thesis
  proof (cases res)
    case (Inl e)
    with after same show ?thesis by simp
  next
    case (Inr out)
    with after same fail show ?thesis by simp
  qed
qed


theorem oversize_declared_fails_without_file_witness:
  "int_of_str ''15728641'' = Some 15728641 \<and> 15728641 > int MAX_IMAGE_SIZE
   \<and> \<not> fst (fst (download_single_image
                   (answering (image_response (Some ''15728641'') [Chunk 10])) empty_world
                   (PyStr ''Lion'') ''http://example.com/lion.jpg''))
   \<and> files (snd (download_single_image
                   (answering (image_response (Some ''15728641'') [Chunk 10])) empty_world
                   (PyStr ''Lion'') ''http://example.com/lion.jpg'')) = files empty_world"
proof -
  let ?r = "image_response (Some ''15728641'') [Chunk 10]"
  have path: "create_local_image_path (answering ?r) (PyStr ''Lion'')
       ''http://example.com/lion.jpg'' = Inr ''/tmp/lion_image.jpg''"
    by code_simp
  have absent: "files empty_world ''/tmp/lion_image.jpg'' = None"
    by (simp add: empty_world_def)
  note sent = download_fetch [OF path absent, THEN conjunct1]
  have answer: "http_get (answering ?r) (length (requests empty_world))
      ''http://example.com/lion.jpg'' = Inr ?r"
    by (simp add: answering_def)
  have declared: "content_length ?r = Some ''15728641''"
    by (simp add: image_response_def)
  have parsed: "int_of_str ''15728641'' = Some 15728641"
    by (simp add: int_of_str_def int_space_def parse_nat_def isdigit_def)
  have over: "15728641 > int MAX_IMAGE_SIZE"
    by (simp add: MAX_IMAGE_SIZE_def)
  note th = oversize_declared_fails_without_file [OF sent answer declared parsed over]
  show ?thesis
    by (intro conjI parsed over conjunct1 [OF th] conjunct2 [OF th])
qed

lemma save_body_exceeds:
  assumes "body r = map Chunk pre @ post" "sum_list pre > MAX_IMAGE_SIZE"
    and "open_raises ev p = None"
  shows "\<exists>w'. save_body ev w p r = (Inr (False, ImageTooLargeDuringDownload, None), w')
           \<and> files w' p = None"
proof -
  from stream_loop_exceeds [of 0 pre p post "w\<lparr>files := (files w)(p \<mapsto> 0)\<rparr>"] assms(2)
  obtain w' where
    "stream_loop p 0 (map Chunk pre @ post) (w\<lparr>files := (files w)(p \<mapsto> 0)\<rparr>)
       = (Returned (False, ImageTooLargeDuringDownload, None), w')"
    and "files w' p = None"
    by auto
  with assms(1) assms(3) show ?thesis
    by (simp add: save_body_def)
qed

lemma accept_response_exceeds:
  assumes "body r = map Chunk pre @ post" "sum_list pre > MAX_IMAGE_SIZE"
    and "files w p = None"
  shows "\<exists>res w'. accept_response ev w p r = (res, w') \<and> files w' p = None
           \<and> (\<forall>out. res = Inr out \<longrightarrow> \<not> fst out)"
proof (cases "open_raises ev p")
  case (Some e)
  with assms(3) show ?thesis
    by (auto simp: accept_response_def save_body_def Let_def split: sum.splits bool.splits)
next
  case None
  from save_body_exceeds [OF assms(1) assms(2) None, of w] obtain w'
    where "save_body ev w p r = (Inr (False, ImageTooLargeDuringDownload, None), w')"
      and "files w' p = None"
    by blast
  with assms(3) show ?thesis
    by (auto simp: accept_response_def Let_def split: sum.splits bool.splits)
qed

lemma accept_response_streams:
  assumes "\<not> (400 \<le> status_code r \<and> status_code r < 600)"
    and "prefix ''image/'' (lower (case content_type r of None \<Rightarrow> [] | Some v \<Rightarrow> v))"
    and "declared_too_large r = Inr False"
  shows "accept_response ev w p r = save_body ev w p r"
proof -
  from assms(1) have "(if 400 \<le> status_code r \<and> status_code r < 600 then x else y) = y" for x y :: "(exn + outcome) \<times> world"
    by (rule if_not_P)
  with assms(2) assms(3) show ?thesis
    by (simp add: accept_response_def Let_def)
qed

text \<open>
  Claim C6. A task that sends its request and is answered by a response whose body
  begins with chunks that together exceed the ceiling, whether a length was declared or
  not, ends in a failure outcome, and no file remains at its destination path. When the
  response passes the checks made before the body is read and the file can be opened,
  the outcome is the failure \<open>Image too large during download\<close>: the loop stops at
  the chunk that passes the ceiling and deletes the partial file.
\<close>

theorem oversize_stream_is_aborted_and_deleted:
  assumes "requests (snd (download_single_image ev w name url)) = requests w @ [url]"
    and "http_get ev (length (requests w)) url = Inr r"
    and "body r = map Chunk pre @ post" and "sum_list pre > MAX_IMAGE_SIZE"
    and "create_local_image_path ev name url = Inr p"
  shows "\<not> fst (fst (download_single_image ev w name url))
     \<and> files (snd (download_single_image ev w name url)) p = None
     \<and> (\<not> (400 \<le> status_code r \<and> status_code r < 600)
          \<and> prefix ''image/'' (lower (case content_type r of None \<Rightarrow> [] | Some v \<Rightarrow> v))
          \<and> declared_too_large r = Inr False \<and> open_raises ev p = None
         \<longrightarrow> fst (download_single_image ev w name url)
               = (False, ImageTooLargeDuringDownload, None))"
proof -
  let ?w = "w\<lparr>stats := (stats w)\<lparr>attempted := attempted (stats w) + 1\<rparr>,
                 requests := requests w @ [url]\<rparr>"
  from sent_request [OF assms(1)] assms(5) have absent: "files w p = None"
    by auto
  then have absent': "files ?w p = None" by simp
  from accept_response_exceeds [OF assms(3) assms(4) absent', of ev] obtain res w'
    where acc: "accept_response ev ?w p r = (res, w')" and gone: "files w' p = None"
      and fail: "\<forall>out. res = Inr out \<longrightarrow> \<not> fst out"
    by blast
  note after = download_after_accept [OF assms(5) absent assms(2) acc]
  have first: "\<not> fst (fst (download_single_image ev w name url))"
  proof (cases res)
    case (Inl e)
    with after show ?thesis by simp
  next
    case (Inr out)
    with after fail show ?thesis by simp
  qed
  have second: "files (snd (download_single_image ev w name url)) p = None"
    using after gone by simp
  have third: "fst (download_single_image ev w name url)
               = (False, ImageTooLargeDuringDownload, None)"
    if streams: "\<not> (400 \<le> status_code r \<and> status_code r < 600)
          \<and> prefix ''image/'' (lower (case content_type r of None \<Rightarrow> [] | Some v \<Rightarrow> v))
          \<and> declared_too_large r = Inr False \<and> open_raises ev p = None"
  proof -
    from streams have "accept_response ev ?w p r = save_body ev ?w p r"
      using accept_response_streams by blast
    moreover from streams save_body_exceeds [OF assms(3) assms(4), of ev p ?w] obtain w1
      where "save_body ev ?w p r = (Inr (False, ImageTooLargeDuringDownload, None), w1)"
      by blast
    ultimately have "res = Inr (False, ImageTooLargeDuringDownload, None)"
      using acc by simp
    with after show ?thesis by simp
  qed
  from first second third show ?thesis by blast
qed


lemma lower_eval: "lower ''.jpg'' = ''.jpg''" "lower ''image/jpeg'' = ''image/jpeg''"
  by code_simp+

lemma sanitize_eval: "sanitize_filename ''Lion'' = ''lion''"
  by code_simp

theorem oversize_stream_is_aborted_and_deleted_witness:
  "content_length (image_response None [Chunk 15728641]) = None
   \<and> sum_list [15728641] > MAX_IMAGE_SIZE
   \<and> files (snd (download_single_image (answering (image_response None [Chunk 15728641]))
                   empty_world (PyStr ''Lion'') ''http://example.com/lion.jpg''))
         ''/tmp/lion_image.jpg'' = None
   \<and> fst (download_single_image (answering (image_response None [Chunk 15728641]))
            empty_world (PyStr ''Lion'') ''http://example.com/lion.jpg'')
       = (False, ImageTooLargeDuringDownload, None)"
proof -
  let ?r = "image_response None [Chunk 15728641]"
  have path: "create_local_image_path (answering ?r) (PyStr ''Lion'')
       ''http://example.com/lion.jpg'' = Inr ''/tmp/lion_image.jpg''"
    by (simp add: create_local_image_path_def get_file_extension_from_url_def answering_def
          SUPPORTED_IMAGE_EXTENSIONS_def IMAGE_DOWNLOAD_DIR_def lower_eval sanitize_eval)
  have absent: "files empty_world ''/tmp/lion_image.jpg'' = None"
    by (simp add: empty_world_def)
  note sent = download_fetch [OF path absent, THEN conjunct1]
  have answer: "http_get (answering ?r) (length (requests empty_world))
      ''http://example.com/lion.jpg'' = Inr ?r"
    by (simp add: answering_def)
  have chunks: "body ?r = map Chunk [15728641] @ []"
    by (simp add: image_response_def)
  have over: "sum_list [15728641] > MAX_IMAGE_SIZE"
    by (simp add: MAX_IMAGE_SIZE_def)
  have no_header: "content_length ?r = None"
    by (simp add: image_response_def)
  have ctype: "content_type ?r = Some ''image/jpeg''"
    by (simp add: image_response_def)
  have streams: "\<not> (400 \<le> status_code ?r \<and> status_code ?r < 600)
      \<and> prefix ''image/'' (lower (case content_type ?r of None \<Rightarrow> [] | Some v \<Rightarrow> v))
      \<and> declared_too_large ?r = Inr False
      \<and> open_raises (answering ?r) ''/tmp/lion_image.jpg'' = None"
    unfolding ctype
    by (simp add: image_response_def declared_too_large_def answering_def lower_eval)
  note th = oversize_stream_is_aborted_and_deleted [OF sent answer chunks over path]
  show ?thesis
    by (intro conjI no_header over th [THEN conjunct2, THEN conjunct1]
          th [THEN conjunct2, THEN conjunct2, THEN mp, OF streams])
qed


subsection \<open>The pool\<close>

lemma cat_path:
  "create_local_image_path (answering r) (PyStr ''Cat'') ''http://example.com/cat.jpg''
     = Inr ''/tmp/cat_image.jpg''"
proof -
  have "sanitize_filename ''Cat'' = ''cat''" by code_simp
  then show ?thesis
    by (simp add: create_local_image_path_def get_file_extension_from_url_def answering_def
          SUPPORTED_IMAGE_EXTENSIONS_def IMAGE_DOWNLOAD_DIR_def lower_eval)
qed

lemma cat_download:
  "download_single_image (answering (image_response None [Chunk 10])) empty_world
      (PyStr ''Cat'') ''http://example.com/cat.jpg''
   = ((True, DownloadedSuccessfully 10, Some ''/tmp/cat_image.jpg''),
      \<lparr>files = [''/tmp/cat_image.jpg'' \<mapsto> 10],
       stats = \<lparr>attempted = Suc 0, successful = Suc 0, failed = 0, skipped = 0\<rparr>,
       requests = [''http://example.com/cat.jpg'']\<rparr>)"
proof -
  let ?r = "image_response None [Chunk 10]"
  let ?w = "\<lparr>files = Map.empty,
             stats = \<lparr>attempted = 1, successful = 0, failed = 0, skipped = 0\<rparr>,
             requests = [''http://example.com/cat.jpg'']\<rparr>"
  have loop: "stream_loop ''/tmp/cat_image.jpg'' 0 [Chunk 10]
                (?w\<lparr>files := (files ?w)(''/tmp/cat_image.jpg'' \<mapsto> 0)\<rparr>)
      = (Completed 10, ?w\<lparr>files := [''/tmp/cat_image.jpg'' \<mapsto> 10]\<rparr>)"
    by (simp add: write_chunk_def MAX_IMAGE_SIZE_def)
  have save: "save_body (answering ?r) ?w ''/tmp/cat_image.jpg'' ?r
      = (Inr (True, DownloadedSuccessfully 10, Some ''/tmp/cat_image.jpg''),
         \<lparr>files = [''/tmp/cat_image.jpg'' \<mapsto> 10],
          stats = \<lparr>attempted = 1, successful = 1, failed = 0, skipped = 0\<rparr>,
          requests = [''http://example.com/cat.jpg'']\<rparr>)"
    using loop by (simp add: save_body_def answering_def image_response_def)
  have acc: "accept_response (answering ?r) ?w ''/tmp/cat_image.jpg'' ?r
      = save_body (answering ?r) ?w ''/tmp/cat_image.jpg'' ?r"
    by (rule accept_response_streams)
       (simp_all add: image_response_def declared_too_large_def lower_eval)
  have absent: "files empty_world ''/tmp/cat_image.jpg'' = None"
    by (simp add: empty_world_def)
  have "download_try_body (answering ?r) empty_world (PyStr ''Cat'') ''http://example.com/cat.jpg''
      = accept_response (answering ?r) ?w ''/tmp/cat_image.jpg'' ?r"
    unfolding try_body_fetch [OF cat_path absent]
    by (simp add: answering_def empty_world_def)
  with acc save show ?thesis
    by (simp add: handlers_returned)
qed


lemma cat_tasks:
  "prepare_tasks 0
     [(new_entry ''Cat'' ''feline'')\<lparr>primary_image_url := Some (PyStr ''http://example.com/cat.jpg'')\<rparr>,
      (new_entry ''Cat'' ''felid'')\<lparr>primary_image_url := Some (PyStr ''http://example.com/cat.jpg'')\<rparr>]
     [] [] Map.empty
   = Inr ([(new_entry ''Cat'' ''feline'')\<lparr>primary_image_url := Some (PyStr ''http://example.com/cat.jpg'')\<rparr>,
           (new_entry ''Cat'' ''felid'')\<lparr>primary_image_url := Some (PyStr ''http://example.com/cat.jpg'')\<rparr>],
          [(PyStr ''Cat'', ''http://example.com/cat.jpg''),
           (PyStr ''Cat'', ''http://example.com/cat.jpg'')],
          [(PyStr ''Cat'', ''http://example.com/cat.jpg'') \<mapsto> 1])"
  by (simp add: new_entry_def)

lemma cat_skip:
  "download_single_image (answering (image_response None [Chunk 10]))
      \<lparr>files = [''/tmp/cat_image.jpg'' \<mapsto> 10],
       stats = \<lparr>attempted = Suc 0, successful = Suc 0, failed = 0, skipped = 0\<rparr>,
       requests = [''http://example.com/cat.jpg'']\<rparr>
      (PyStr ''Cat'') ''http://example.com/cat.jpg''
   = ((True, FileAlreadyExists, Some ''/tmp/cat_image.jpg''),
      \<lparr>files = [''/tmp/cat_image.jpg'' \<mapsto> 10],
       stats = \<lparr>attempted = 2, successful = Suc 0, failed = 0, skipped = Suc 0\<rparr>,
       requests = [''http://example.com/cat.jpg'']\<rparr>)"
  by (simp add: download_skip [OF cat_path])

text \<open>
  Claim C4 says that each of the N outcomes is attached to the record its task came
  from, also when two records give the same (key, locator) pair. The source finds the
  record of a task through a dict keyed by that pair, which keeps the last index only.
  With two records of the animal Cat and one address, two tasks run and both outcomes
  go to the second record, in either order of completion; the first record gets no
  path, no status and no success flag.
\<close>

theorem duplicate_task_outcome_goes_to_last_record:
  "download_images_concurrently (answering (image_response None [Chunk 10])) [0, 1] empty_world
     [(new_entry ''Cat'' ''feline'')\<lparr>primary_image_url := Some (PyStr ''http://example.com/cat.jpg'')\<rparr>,
      (new_entry ''Cat'' ''felid'')\<lparr>primary_image_url := Some (PyStr ''http://example.com/cat.jpg'')\<rparr>]
   = Inr ([(new_entry ''Cat'' ''feline'')\<lparr>primary_image_url := Some (PyStr ''http://example.com/cat.jpg'')\<rparr>,
           (new_entry ''Cat'' ''felid'')
             \<lparr>primary_image_url := Some (PyStr ''http://example.com/cat.jpg''),
              local_image_path := Some (PyStr ''/tmp/cat_image.jpg''),
              download_status := Some FileAlreadyExists,
              download_success := Some True\<rparr>],
          \<lparr>files = [''/tmp/cat_image.jpg'' \<mapsto> 10],
           stats = \<lparr>attempted = 2, successful = 1, failed = 0, skipped = 1\<rparr>,
           requests = [''http://example.com/cat.jpg'']\<rparr>)
   \<and> download_images_concurrently (answering (image_response None [Chunk 10])) [1, 0] empty_world
     [(new_entry ''Cat'' ''feline'')\<lparr>primary_image_url := Some (PyStr ''http://example.com/cat.jpg'')\<rparr>,
      (new_entry ''Cat'' ''felid'')\<lparr>primary_image_url := Some (PyStr ''http://example.com/cat.jpg'')\<rparr>]
   = Inr ([(new_entry ''Cat'' ''feline'')\<lparr>primary_image_url := Some (PyStr ''http://example.com/cat.jpg'')\<rparr>,
           (new_entry ''Cat'' ''felid'')
             \<lparr>primary_image_url := Some (PyStr ''http://example.com/cat.jpg''),
              local_image_path := Some (PyStr ''/tmp/cat_image.jpg''),
              download_status := Some FileAlreadyExists,
              download_success := Some True\<rparr>],
          \<lparr>files = [''/tmp/cat_image.jpg'' \<mapsto> 10],
           stats = \<lparr>attempted = 2, successful = 1, failed = 0, skipped = 1\<rparr>,
           requests = [''http://example.com/cat.jpg'']\<rparr>)"
proof -
  have reset: "empty_world\<lparr>stats := \<lparr>attempted = 0, successful = 0, failed = 0, skipped = 0\<rparr>\<rparr>
      = empty_world"
    by (simp add: empty_world_def)
  show ?thesis
    unfolding download_images_concurrently_def Let_def reset cat_tasks
    by (simp add: cat_download cat_skip new_entry_def)
qed

text \<open>
  On these two records the first one is left as it was whatever the server answers,
  whatever the files and whatever the order of the tasks: no task maps to its index.
\<close>

lemma run_tasks_untouched:
  "(\<And>t i. m t = Some i \<Longrightarrow> i \<noteq> k) \<Longrightarrow> fst (run_tasks ev m ts w data) ! k = data ! k"
proof (induction ts arbitrary: w data)
  case Nil
  then show ?case by simp
next
  case (Cons t ts)
  obtain animal_name image_url where t: "t = (animal_name, image_url)" by (cases t)
  obtain success msg local_path w' where
    dl: "download_single_image ev w animal_name image_url = ((success, msg, local_path), w')"
    by (cases "download_single_image ev w animal_name image_url") auto
  have ih: "fst (run_tasks ev m ts w1 d1) ! k = d1 ! k" for w1 d1
    using Cons.IH Cons.prems by blast
  show ?case
  proof (cases "m (animal_name, image_url)")
    case None
    with t dl ih [of w' data] show ?thesis by simp
  next
    case (Some data_idx)
    with Cons.prems have "data_idx \<noteq> k" by blast
    with Some t dl
      ih [of w'
        "data[data_idx := (data ! data_idx)
           \<lparr>local_image_path := Some (case local_path of None \<Rightarrow> PyNone | Some p \<Rightarrow> PyStr p),
            download_status := Some msg, download_success := Some success\<rparr>]"]
    show ?thesis by simp
  qed
qed

lemma first_duplicate_record_never_updated:
  "\<exists>data w'.
     download_images_concurrently ev order w
       [(new_entry ''Cat'' ''feline'')\<lparr>primary_image_url := Some (PyStr ''http://example.com/cat.jpg'')\<rparr>,
        (new_entry ''Cat'' ''felid'')\<lparr>primary_image_url := Some (PyStr ''http://example.com/cat.jpg'')\<rparr>]
       = Inr (data, w')
     \<and> data ! 0
       = (new_entry ''Cat'' ''feline'')\<lparr>primary_image_url := Some (PyStr ''http://example.com/cat.jpg'')\<rparr>"
proof -
  let ?m = "[(PyStr ''Cat'', ''http://example.com/cat.jpg'') \<mapsto> (1::nat)]"
  have "\<And>t i. ?m t = Some i \<Longrightarrow> i \<noteq> 0"
    by (simp split: if_splits)
  from run_tasks_untouched [of ?m 0, OF this] show ?thesis
    unfolding download_images_concurrently_def Let_def cat_tasks
    by (simp add: prod_eq_iff)
qed

end
